theory Spec2Isabelle
  imports Main
begin

section \<open>ISBN lookup against the Bobcat catalog (notebooks/bobcat-isbn-match.ipynb)\<close>

text \<open>
  The notebook reads a list of ISBN strings, normalises each one (upper case, then zero
  padding), asks the library catalog for it through a browser session and records
  whether the result page reports a hit. Strings are modelled as \<open>string\<close> (ASCII
  text, one \<open>char\<close> per character); Python's unbounded integers are \<open>int\<close>.
\<close>

subsection \<open>Python built-ins used by the notebook\<close>

text \<open>\<open>str.upper()\<close> on ASCII text: the letters a to z are mapped to A to Z.\<close>

definition upper_char :: "char \<Rightarrow> char" where
  "upper_char c =
     (let n = (of_char c :: nat) in if 97 \<le> n \<and> n \<le> 122 then char_of (n - 32) else c)"

definition upper :: "string \<Rightarrow> string" where
  "upper s = map upper_char s"

text \<open>
  \<open>s * n\<close> on a string: \<open>n\<close> copies of \<open>s\<close>; for \<open>n \<le> 0\<close> Python gives
  the empty string and does not raise.
\<close>

definition str_mul :: "string \<Rightarrow> int \<Rightarrow> string" where
  "str_mul s n = concat (replicate (nat n) s)"

text \<open>\<open>sub in text\<close> on strings: \<open>sub\<close> occurs in \<open>text\<close> as a contiguous run.\<close>

fun str_in :: "string \<Rightarrow> string \<Rightarrow> bool" where
  "str_in sub [] = (sub = [])"
| "str_in sub (c # cs) = (take (length sub) (c # cs) = sub \<or> str_in sub cs)"

subsection \<open>The imported ISBN library\<close>

text \<open>
  Modelled from the spec: \<open>clean\<close> is imported from the package isbnlib, whose source
  is not part of the repository. The spec describes the cleaned form of a string as the
  string with hyphens and spaces removed.
\<close>

definition clean :: "string \<Rightarrow> string" where
  "clean isbnlike = filter (\<lambda>c. c \<noteq> CHR ''-'' \<and> c \<noteq> CHR '' '') isbnlike"

text \<open>
  Modelled from the spec: the characters of an ISBN and their values, which the check
  functions of isbnlib work on. A digit stands for itself, and X stands for ten.
\<close>

definition is_digit :: "char \<Rightarrow> bool" where
  "is_digit c = (48 \<le> (of_char c :: nat) \<and> (of_char c :: nat) \<le> 57)"

definition digit_value :: "char \<Rightarrow> nat" where
  "digit_value c = (if c = CHR ''X'' then 10 else of_char c - 48)"

text \<open>
  Modelled from the spec: the weighted sum of the ISBN-13 rule, computed by isbnlib. The
  weights alternate 1, 3, 1, 3, ... from the left.
\<close>

fun isbn13_sum :: "string \<Rightarrow> nat" where
  "isbn13_sum [] = 0"
| "isbn13_sum [a] = digit_value a"
| "isbn13_sum (a # b # cs) = digit_value a + 3 * digit_value b + isbn13_sum cs"

text \<open>
  Modelled from the spec: the weighted sum of the ISBN-10 rule, computed by isbnlib. The
  weights count down to 1 at the last character.
\<close>

fun isbn10_sum :: "string \<Rightarrow> nat" where
  "isbn10_sum [] = 0"
| "isbn10_sum (c # cs) = (length cs + 1) * digit_value c + isbn10_sum cs"

text \<open>
  Modelled from the spec: \<open>is_isbn13\<close> is imported from the package isbnlib, whose
  source is not part of the repository. The spec describes it as the ISBN-13 checksum
  rule, computed over the cleaned character sequence: thirteen digits whose sum with
  the weights 1, 3, 1, 3, ... is a multiple of 10.
\<close>

definition is_isbn13 :: "string \<Rightarrow> bool" where
  "is_isbn13 isbn13 =
     (let c = clean isbn13
      in length c = 13 \<and> list_all is_digit c \<and> isbn13_sum c mod 10 = 0)"

text \<open>
  Modelled from the spec: \<open>is_isbn10\<close> is imported from the package isbnlib, whose
  source is not part of the repository. The spec describes it as the ISBN-10 checksum
  rule, computed over the cleaned character sequence: nine digits and a check character
  (a digit, or X for ten) whose sum with the weights 10, 9, ..., 1 is a multiple of 11.
\<close>

definition is_isbn10 :: "string \<Rightarrow> bool" where
  "is_isbn10 isbn10 =
     (let c = clean isbn10
      in length c = 10 \<and> list_all is_digit (butlast c)
         \<and> (is_digit (last c) \<or> last c = CHR ''X'')
         \<and> isbn10_sum c mod 11 = 0)"

subsection \<open>The checksum rules in closed form\<close>

text \<open>
  The two check-digit rules in the words of the specification ("standard check-digit
  rules"), written as the ISBN standard writes them: sums over the positions of the
  cleaned string. The validation functions above are compared with them.
\<close>

definition isbn13_checksum_ok :: "string \<Rightarrow> bool" where
  "isbn13_checksum_ok c =
     (length c = 13 \<and> (\<forall>i<13. is_digit (c ! i))
      \<and> (\<Sum>i<13. (if even i then 1 else 3) * digit_value (c ! i)) mod 10 = 0)"

definition isbn10_checksum_ok :: "string \<Rightarrow> bool" where
  "isbn10_checksum_ok c =
     (length c = 10 \<and> (\<forall>i<9. is_digit (c ! i)) \<and> (is_digit (c ! 9) \<or> c ! 9 = CHR ''X'')
      \<and> (\<Sum>i<10. (10 - i) * digit_value (c ! i)) mod 11 = 0)"

subsection \<open>Statics\<close>

definition base_url :: string where
  "base_url = ''http://bobcat.library.nyu.edu/primo-explore/search?search_scope=all&sortby=rank&vid=NYU&lang=en_US&query=isbn,exact,''"

subsection \<open>Validation and padding\<close>

definition validate_isbn :: "string \<Rightarrow> bool" where
  "validate_isbn isbn = (if is_isbn13 isbn \<or> is_isbn10 isbn then True else False)"

definition pad_isbn :: "string \<Rightarrow> string" where
  "pad_isbn isbn =
     (if length (clean isbn) < 10
      then str_mul ''0'' (10 - int (length isbn)) @ isbn
      else isbn)"

subsection \<open>The catalog lookup\<close>

text \<open>
  The browser session is the one external collaborator. It is a parameter of the model:
  a function from the URL that is opened to the text of the page that is then read, or
  \<open>None\<close> when the browser raises (navigation failure, element not found). The
  notebook does not catch such an exception, so it ends the lookup and the batch. The
  list \<open>fetched\<close> is the trace of the URLs handed to \<open>browser.get\<close>, oldest first.
  The fixed two-second sleep has no effect on the values computed and is left out.
  In \<open>check_bobcat_isbn\<close> the three branches that set \<open>url\<close> or return early are
  the value of \<open>url\<close>, with \<open>None\<close> for the early \<open>return False\<close>.
\<close>

datatype error = BrowserError

type_synonym browser = "string \<Rightarrow> string option"

definition check_bobcat_isbn ::
  "browser \<Rightarrow> string \<Rightarrow> string list \<Rightarrow> (error + bool) \<times> string list" where
  "check_bobcat_isbn browser isbn fetched =
     (let valid_isbn = validate_isbn isbn;
          url = (if valid_isbn then Some (base_url @ isbn)
                 else if validate_isbn (pad_isbn isbn) then Some (base_url @ pad_isbn isbn)
                 else None)
      in case url of
           None \<Rightarrow> (Inr False, fetched)
         | Some u \<Rightarrow>
             (case browser u of
                None \<Rightarrow> (Inl BrowserError, fetched @ [u])
              | Some text \<Rightarrow>
                  (let alert = str_in ''No records found'' text
                   in (Inr (if alert then False else True), fetched @ [u]))))"

subsection \<open>The batch loop\<close>

text \<open>
  The loop over the input list. The list \<open>matches\<close> grows by one pair per ISBN; an
  exception of the browser leaves the loop with the pairs collected so far. The progress
  line printed for each ISBN is left out.
\<close>

fun batch ::
  "browser \<Rightarrow> string list \<Rightarrow> (string \<times> bool) list \<Rightarrow> string list
     \<Rightarrow> (error + unit) \<times> (string \<times> bool) list \<times> string list" where
  "batch browser [] matches fetched = (Inr (), matches, fetched)"
| "batch browser (raw # isbns) matches fetched =
     (let isbn = pad_isbn (upper raw)
      in case check_bobcat_isbn browser isbn fetched of
           (Inl e, fetched') \<Rightarrow> (Inl e, matches, fetched')
         | (Inr match, fetched') \<Rightarrow>
             batch browser isbns (matches @ [(isbn, match)]) fetched')"

text \<open>
  The normalisation step of the loop, \<open>pad_isbn(isbn.upper())\<close>, under the name the
  specification gives it.
\<close>

definition normalize_isbn :: "string \<Rightarrow> string" where
  "normalize_isbn isbn = pad_isbn (upper isbn)"

definition run_batch ::
  "browser \<Rightarrow> string list \<Rightarrow> (error + unit) \<times> (string \<times> bool) list \<times> string list" where
  "run_batch browser isbns = batch browser isbns [] []"

text \<open>A browser that shows the same page text for every URL.\<close>

definition static_browser :: "string \<Rightarrow> browser" where
  "static_browser text url = Some text"


section \<open>Properties\<close>

subsection \<open>Built-ins\<close>

lemma upper_char_idem: "upper_char (upper_char c) = upper_char c"
proof -
  let ?n = "of_char c :: nat"
  show ?thesis
  proof (cases "97 \<le> ?n \<and> ?n \<le> 122")
    case True
    then have u: "upper_char c = char_of (?n - 32)" by (simp add: upper_char_def)
    from True have "?n - 32 < 256" by arith
    then have "(of_char (char_of (?n - 32)) :: nat) = ?n - 32" by simp
    with True have "\<not> (97 \<le> (of_char (char_of (?n - 32)) :: nat))" by arith
    then have "upper_char (char_of (?n - 32)) = char_of (?n - 32)"
      by (simp add: upper_char_def Let_def)
    with u show ?thesis by simp
  next
    case False
    then show ?thesis by (auto simp add: upper_char_def Let_def)
  qed
qed

lemma upper_idem: "upper (upper s) = upper s"
  by (simp add: upper_def upper_char_idem)

lemma upper_append: "upper (xs @ ys) = upper xs @ upper ys"
  by (simp add: upper_def)

lemma upper_zeros: "upper (replicate k CHR ''0'') = replicate k CHR ''0''"
  by (simp add: upper_def upper_char_def)

lemma str_mul_zero: "str_mul ''0'' n = replicate (nat n) CHR ''0''"
proof -
  have "concat (replicate k ''0'') = replicate k CHR ''0''" for k
    by (induction k) simp_all
  then show ?thesis by (simp add: str_mul_def)
qed

subsection \<open>Padding\<close>

lemma length_clean_le: "length (clean s) \<le> length s"
  by (simp add: clean_def)

lemma pad_isbn_long: "10 \<le> length isbn \<Longrightarrow> pad_isbn isbn = isbn"
  by (simp add: pad_isbn_def str_mul_def)

lemma pad_isbn_zeros: "\<exists>k. pad_isbn isbn = replicate k CHR ''0'' @ isbn"
proof (cases "length (clean isbn) < 10")
  case True
  then show ?thesis unfolding pad_isbn_def str_mul_zero by auto
next
  case False
  then have "pad_isbn isbn = replicate 0 CHR ''0'' @ isbn" by (simp add: pad_isbn_def)
  then show ?thesis by blast
qed

lemma length_pad_isbn: "10 \<le> length (pad_isbn isbn)"
  using length_clean_le [of isbn] by (auto simp: pad_isbn_def str_mul_zero)

lemma pad_isbn_idem: "pad_isbn (pad_isbn isbn) = pad_isbn isbn"
  by (rule pad_isbn_long) (rule length_pad_isbn)

text \<open>
  C9. A string of raw length at least 10 is returned unchanged by \<open>pad_isbn\<close>, whatever
  its cleaned length is: the pad count \<open>10 - len(isbn)\<close> is then zero or negative and
  \<open>'0' * n\<close> is the empty string. \<open>pad_isbn\<close> does not raise on any string: it
  always returns the input with some number of zeros in front.
\<close>

theorem pad_isbn_raw_length:
  "(10 \<le> length isbn \<longrightarrow> pad_isbn isbn = isbn)
   \<and> (\<exists>k. pad_isbn isbn = replicate k CHR ''0'' @ isbn)"
  using pad_isbn_long [of isbn] pad_isbn_zeros [of isbn] by blast

theorem pad_isbn_raw_length_witness:
  "10 \<le> length ''1-2-3-4-5-6'' \<and> length (clean ''1-2-3-4-5-6'') < 10
   \<and> pad_isbn ''1-2-3-4-5-6'' = ''1-2-3-4-5-6''"
  using pad_isbn_raw_length [of "''1-2-3-4-5-6''"] by (simp add: clean_def)

lemma length_pad_isbn_short: "length isbn < 10 \<Longrightarrow> length (pad_isbn isbn) = 10"
  using length_clean_le [of isbn] by (simp add: pad_isbn_def str_mul_zero)

lemma upper_pad_isbn: "upper s = s \<Longrightarrow> upper (pad_isbn s) = pad_isbn s"
  using pad_isbn_zeros [of s] by (auto simp: upper_append upper_zeros)

text \<open>
  C2 (the code differs). The guard of \<open>pad_isbn\<close> measures the cleaned string and the
  pad count measures the raw one. The line \<open>306406152\<close> followed by one space has
  cleaned length 9 and raw length 10: the count is \<open>10 - 10 = 0\<close> and no zero is
  put in front, where a string of cleaned length 9 should get exactly one.
\<close>

theorem pad_isbn_trailing_space:
  "length (clean ''306406152 '') = 9 \<and> pad_isbn ''306406152 '' = ''306406152 ''"
  by (simp add: clean_def pad_isbn_def str_mul_def)

text \<open>
  C6. Normalisation (upper case, then padding) is idempotent. It is so on every string,
  and a string that is already upper case and has at least 10 characters is a fixed
  point of it.
\<close>

theorem normalize_isbn_idempotent:
  "normalize_isbn (normalize_isbn x) = normalize_isbn x
   \<and> (upper x = x \<and> 10 \<le> length x \<longrightarrow> normalize_isbn x = x)"
  by (simp add: normalize_isbn_def upper_pad_isbn upper_idem pad_isbn_idem pad_isbn_long)

theorem normalize_isbn_idempotent_witness:
  "upper ''080442957X'' = ''080442957X'' \<and> 10 \<le> length ''080442957X''
   \<and> normalize_isbn ''080442957X'' = ''080442957X''
   \<and> normalize_isbn (normalize_isbn ''080442957x'') = normalize_isbn ''080442957x''"
  using normalize_isbn_idempotent [of "''080442957X''"] normalize_isbn_idempotent [of "''080442957x''"]
  by (simp add: upper_def upper_char_def)

subsection \<open>The catalog lookup\<close>

lemma str_in_iff: "str_in sub page \<longleftrightarrow> (\<exists>ps ss. page = ps @ sub @ ss)"
proof (induction page)
  case Nil
  then show ?case by auto
next
  case (Cons c cs)
  have "take (length sub) (c # cs) = sub \<longleftrightarrow> (\<exists>ss. c # cs = sub @ ss)"
    by (metis append_eq_conv_conj)
  moreover have "(\<exists>ps ss. c # cs = ps @ sub @ ss) \<longleftrightarrow>
      (\<exists>ss. c # cs = sub @ ss) \<or> (\<exists>ps ss. cs = ps @ sub @ ss)"
  proof
    assume "\<exists>ps ss. c # cs = ps @ sub @ ss"
    then obtain ps ss where e: "c # cs = ps @ sub @ ss" by blast
    show "(\<exists>ss. c # cs = sub @ ss) \<or> (\<exists>ps ss. cs = ps @ sub @ ss)"
    proof (cases ps)
      case Nil
      with e show ?thesis by auto
    next
      case (Cons p ps')
      with e have "cs = ps' @ sub @ ss" by simp
      then show ?thesis by blast
    qed
  next
    assume "(\<exists>ss. c # cs = sub @ ss) \<or> (\<exists>ps ss. cs = ps @ sub @ ss)"
    then show "\<exists>ps ss. c # cs = ps @ sub @ ss"
    proof
      assume "\<exists>ss. c # cs = sub @ ss"
      then obtain ss where "c # cs = [] @ sub @ ss" by auto
      then show ?thesis by blast
    next
      assume "\<exists>ps ss. cs = ps @ sub @ ss"
      then obtain ps ss where "cs = ps @ sub @ ss" by blast
      then have "c # cs = (c # ps) @ sub @ ss" by simp
      then show ?thesis by blast
    qed
  qed
  ultimately show ?case using Cons.IH by simp
qed

lemma check_bobcat_isbn_invalid:
  "\<not> validate_isbn isbn \<Longrightarrow> \<not> validate_isbn (pad_isbn isbn)
     \<Longrightarrow> check_bobcat_isbn browser isbn fetched = (Inr False, fetched)"
  by (simp add: check_bobcat_isbn_def)

lemma check_bobcat_isbn_fetched:
  "validate_isbn isbn \<or> validate_isbn (pad_isbn isbn)
     \<Longrightarrow> snd (check_bobcat_isbn browser isbn fetched)
         = fetched @ [base_url @ (if validate_isbn isbn then isbn else pad_isbn isbn)]"
  by (auto simp add: check_bobcat_isbn_def Let_def split: option.splits)

lemma check_bobcat_isbn_page:
  "validate_isbn isbn \<or> validate_isbn (pad_isbn isbn)
     \<Longrightarrow> fst (check_bobcat_isbn (static_browser page) isbn fetched)
         = Inr (\<not> str_in ''No records found'' page)"
  by (auto simp add: check_bobcat_isbn_def Let_def static_browser_def)

lemma check_bobcat_isbn_fst:
  "fst (check_bobcat_isbn browser isbn fetched) = fst (check_bobcat_isbn browser isbn [])"
  by (simp add: check_bobcat_isbn_def Let_def split: option.splits)

lemma check_bobcat_isbn_no_error:
  assumes "\<forall>u. browser u \<noteq> None"
  shows "fst (check_bobcat_isbn browser isbn fetched) \<noteq> Inl e"
proof -
  have s: "\<exists>t. browser u = Some t" for u
    using assms [rule_format, of u] by simp
  show ?thesis
  proof (cases "validate_isbn isbn")
    case True
    obtain t where "browser (base_url @ isbn) = Some t" using s by blast
    with True show ?thesis by (simp add: check_bobcat_isbn_def Let_def)
  next
    case False
    show ?thesis
    proof (cases "validate_isbn (pad_isbn isbn)")
      case True
      obtain t where "browser (base_url @ pad_isbn isbn) = Some t" using s by blast
      with True False show ?thesis by (simp add: check_bobcat_isbn_def Let_def)
    next
      case invalid: False
      with False show ?thesis by (simp add: check_bobcat_isbn_def Let_def)
    qed
  qed
qed

text \<open>
  C4. An ISBN that fails validation both as it is and after padding is answered
  \<open>False\<close> with no URL fetched and no error, whatever the browser would do. An ISBN
  that passes in one of the two forms has exactly one URL fetched, the base URL followed
  by the form that passed; this holds also when the browser raises, and nothing is
  fetched a second time.
\<close>

theorem lookup_fetches:
  "(\<not> validate_isbn isbn \<and> \<not> validate_isbn (pad_isbn isbn)
      \<longrightarrow> check_bobcat_isbn browser isbn fetched = (Inr False, fetched))
   \<and> (validate_isbn isbn \<or> validate_isbn (pad_isbn isbn)
      \<longrightarrow> snd (check_bobcat_isbn browser isbn fetched)
          = fetched @ [base_url @ (if validate_isbn isbn then isbn else pad_isbn isbn)])"
  using check_bobcat_isbn_invalid check_bobcat_isbn_fetched by blast

theorem lookup_fetches_witness:
  "\<not> validate_isbn ''12345'' \<and> \<not> validate_isbn (pad_isbn ''12345'')
   \<and> check_bobcat_isbn (static_browser ''Results'') ''12345'' [] = (Inr False, [])
   \<and> validate_isbn ''9781781792834''
   \<and> snd (check_bobcat_isbn (static_browser ''Results'') ''9781781792834'' [])
       = [base_url @ ''9781781792834'']"
proof -
  have a: "\<not> validate_isbn ''12345''"
    by (simp add: validate_isbn_def is_isbn13_def is_isbn10_def clean_def)
  have p: "pad_isbn ''12345'' = ''0000012345''" by code_simp
  have b: "\<not> validate_isbn (pad_isbn ''12345'')"
    unfolding p
    by (simp add: validate_isbn_def is_isbn13_def is_isbn10_def clean_def is_digit_def
        digit_value_def)
  have c: "validate_isbn ''9781781792834''"
    by (simp add: validate_isbn_def is_isbn13_def clean_def is_digit_def digit_value_def)
  show ?thesis
    using a b c lookup_fetches [of "''12345''" "static_browser ''Results''" "[]"]
      lookup_fetches [of "''9781781792834''" "static_browser ''Results''" "[]"]
    by simp
qed

text \<open>
  C5. When a page is fetched, the lookup answers \<open>False\<close> if the page text contains
  the marker \<open>No records found\<close> anywhere (so also when the text is exactly the
  marker) and \<open>True\<close> if it does not.
\<close>

theorem match_evaluator:
  "validate_isbn isbn \<or> validate_isbn (pad_isbn isbn)
     \<Longrightarrow> fst (check_bobcat_isbn (static_browser page) isbn fetched)
         = Inr (\<not> (\<exists>ps ss. page = ps @ ''No records found'' @ ss))"
  using check_bobcat_isbn_page [of isbn page fetched] str_in_iff [of "''No records found''" page]
  by simp


theorem match_evaluator_witness:
  "validate_isbn ''9781781792834''
   \<and> fst (check_bobcat_isbn (static_browser ''No records found'') ''9781781792834'' [])
       = Inr False
   \<and> fst (check_bobcat_isbn (static_browser ''Ancient Libraries'') ''9781781792834'' [])
       = Inr True"
proof -
  have c: "validate_isbn ''9781781792834''"
    by (simp add: validate_isbn_def is_isbn13_def clean_def is_digit_def digit_value_def)
  have m: "\<exists>ps ss. ''No records found'' = ps @ ''No records found'' @ ss"
    by (rule exI [of _ "[]"], rule exI [of _ "[]"]) simp
  have n: "\<not> (\<exists>ps ss. ''Ancient Libraries'' = ps @ ''No records found'' @ ss)"
    unfolding str_in_iff [symmetric] by simp
  show ?thesis
    using c m n match_evaluator [of "''9781781792834''" "''No records found''" "[]"]
      match_evaluator [of "''9781781792834''" "''Ancient Libraries''" "[]"]
    by simp
qed

subsection \<open>The batch loop\<close>

lemma batch_matches:
  "\<exists>new. fst (snd (batch browser isbns matches fetched)) = matches @ new
     \<and> map fst new = take (length new) (map normalize_isbn isbns)
     \<and> (\<forall>(i, m) \<in> set new. fst (check_bobcat_isbn browser i []) = Inr m)
     \<and> (fst (batch browser isbns matches fetched) = Inr () \<longrightarrow> length new = length isbns)"
proof (induction isbns arbitrary: matches fetched)
  case Nil
  show ?case by simp
next
  case (Cons raw isbns)
  let ?isbn = "pad_isbn (upper raw)"
  obtain r fetched' where c: "check_bobcat_isbn browser ?isbn fetched = (r, fetched')"
    by (cases "check_bobcat_isbn browser ?isbn fetched")
  show ?case
  proof (cases r)
    case (Inl e)
    with c have "batch browser (raw # isbns) matches fetched = (Inl e, matches, fetched')"
      by simp
    then show ?thesis by simp
  next
    case (Inr match)
    with c have b: "batch browser (raw # isbns) matches fetched
        = batch browser isbns (matches @ [(?isbn, match)]) fetched'"
      by simp
    from c Inr have m: "fst (check_bobcat_isbn browser ?isbn []) = Inr match"
      using check_bobcat_isbn_fst [of browser ?isbn fetched] by simp
    from Cons.IH [of "matches @ [(?isbn, match)]" fetched'] obtain new where
      n: "fst (snd (batch browser isbns (matches @ [(?isbn, match)]) fetched'))
            = (matches @ [(?isbn, match)]) @ new"
        "map fst new = take (length new) (map normalize_isbn isbns)"
        "\<forall>(i, m) \<in> set new. fst (check_bobcat_isbn browser i []) = Inr m"
        "fst (batch browser isbns (matches @ [(?isbn, match)]) fetched') = Inr ()
           \<longrightarrow> length new = length isbns"
      by blast
    let ?new = "(?isbn, match) # new"
    have "fst (snd (batch browser (raw # isbns) matches fetched)) = matches @ ?new"
      using b n(1) by simp
    moreover have "map fst ?new = take (length ?new) (map normalize_isbn (raw # isbns))"
      using n(2) by (simp add: normalize_isbn_def)
    moreover have "\<forall>(i, m) \<in> set ?new. fst (check_bobcat_isbn browser i []) = Inr m"
      using n(3) m by simp
    moreover have "fst (batch browser (raw # isbns) matches fetched) = Inr ()
        \<longrightarrow> length ?new = length (raw # isbns)"
      using b n(4) by simp
    ultimately show ?thesis by blast
  qed
qed

lemma batch_completes:
  "\<forall>u. browser u \<noteq> None \<Longrightarrow> fst (batch browser isbns matches fetched) = Inr ()"
proof (induction isbns arbitrary: matches fetched)
  case Nil
  show ?case by simp
next
  case (Cons raw isbns)
  let ?isbn = "pad_isbn (upper raw)"
  obtain r fetched' where c: "check_bobcat_isbn browser ?isbn fetched = (r, fetched')"
    by (cases "check_bobcat_isbn browser ?isbn fetched")
  with Cons.prems check_bobcat_isbn_no_error [of browser ?isbn fetched]
  obtain match where "r = Inr match" by (cases r) auto
  with c Cons.IH [OF Cons.prems] show ?case by simp
qed

text \<open>
  C7. The loop appends to \<open>matches\<close> and never changes what is already there: the
  final list is the initial one followed by the new pairs. The new pairs are, in input
  order, the normalised ISBNs with the answer of their lookup. A run that ends without
  a browser exception has appended exactly one pair per input ISBN, and a run with a
  browser that never raises ends so.
\<close>

theorem batch_one_pair_per_isbn:
  "\<exists>new. fst (snd (batch browser isbns matches fetched)) = matches @ new
     \<and> map fst new = take (length new) (map normalize_isbn isbns)
     \<and> (\<forall>(i, m) \<in> set new. fst (check_bobcat_isbn browser i []) = Inr m)
     \<and> (fst (batch browser isbns matches fetched) = Inr () \<longrightarrow> length new = length isbns)
     \<and> ((\<forall>u. browser u \<noteq> None) \<longrightarrow> fst (batch browser isbns matches fetched) = Inr ())"
  using batch_matches [of browser isbns matches fetched]
    batch_completes [of browser isbns matches fetched] by blast

theorem batch_one_pair_per_isbn_witness:
  "(\<forall>u. static_browser ''Ancient Libraries'' u \<noteq> None)
   \<and> fst (batch (static_browser ''Ancient Libraries'')
             [''9785990589834'', ''9785446904327''] [] []) = Inr ()
   \<and> (\<exists>new. fst (snd (batch (static_browser ''Ancient Libraries'')
                        [''9785990589834'', ''9785446904327''] [] [])) = new
          \<and> length new = length [''9785990589834'', ''9785446904327''])"
proof -
  have h: "\<forall>u. static_browser ''Ancient Libraries'' u \<noteq> None"
    by (simp add: static_browser_def)
  from batch_one_pair_per_isbn [of "static_browser ''Ancient Libraries''"
      "[''9785990589834'', ''9785446904327'']" "[]" "[]"] h
  show ?thesis by auto
qed

subsection \<open>Validation\<close>

lemma isbn13_sum_eq:
  "isbn13_sum c = (\<Sum>i<length c. (if even i then 1 else 3) * digit_value (c ! i))"
proof (induction c rule: isbn13_sum.induct)
  case 1
  show ?case by simp
next
  case (2 a)
  show ?case by simp
next
  case (3 a b cs)
  show ?case
    by (simp add: 3 sum.lessThan_Suc_shift del: sum.lessThan_Suc)
qed

lemma isbn10_sum_eq:
  "isbn10_sum c = (\<Sum>i<length c. (length c - i) * digit_value (c ! i))"
proof (induction c)
  case Nil
  show ?case by simp
next
  case (Cons a cs)
  show ?case
    by (simp add: Cons sum.lessThan_Suc_shift del: sum.lessThan_Suc)
qed

lemma is_isbn13_iff: "is_isbn13 isbn \<longleftrightarrow> isbn13_checksum_ok (clean isbn)"
proof -
  have "length c = 13 \<Longrightarrow> list_all is_digit c \<longleftrightarrow> (\<forall>i<13. is_digit (c ! i))" for c
    by (simp add: list_all_length)
  then show ?thesis
    unfolding is_isbn13_def isbn13_checksum_ok_def Let_def isbn13_sum_eq
    by (cases "length (clean isbn) = 13") simp_all
qed

lemma is_isbn10_iff: "is_isbn10 isbn \<longleftrightarrow> isbn10_checksum_ok (clean isbn)"
proof -
  have b: "length c = 10 \<Longrightarrow> list_all is_digit (butlast c) \<longleftrightarrow> (\<forall>i<9. is_digit (c ! i))" for c
    by (simp add: list_all_length nth_butlast)
  have l: "length c = 10 \<Longrightarrow> last c = c ! 9" for c :: string
    by (cases c rule: rev_cases) (simp_all add: nth_append)
  show ?thesis
    unfolding is_isbn10_def isbn10_checksum_ok_def Let_def isbn10_sum_eq
    by (cases "length (clean isbn) = 10") (simp_all add: b l)
qed

text \<open>
  C3. \<open>validate_isbn\<close> is true exactly when the cleaned string (hyphens and spaces
  removed) satisfies the ISBN-13 check-digit rule or the ISBN-10 check-digit rule; so it
  is true for every string whose cleaned form is a valid ISBN-13.
\<close>

theorem validate_isbn_checksums:
  "validate_isbn isbn \<longleftrightarrow> isbn13_checksum_ok (clean isbn) \<or> isbn10_checksum_ok (clean isbn)"
  by (simp add: validate_isbn_def is_isbn13_iff is_isbn10_iff)


theorem validate_isbn_checksums_witness:
  "validate_isbn ''978-1-78179-283-4''
   \<and> (isbn13_checksum_ok (clean ''978-1-78179-283-4'')
        \<or> isbn10_checksum_ok (clean ''978-1-78179-283-4''))
   \<and> \<not> validate_isbn ''978-1-78179-283-5''
   \<and> \<not> isbn13_checksum_ok (clean ''978-1-78179-283-5'')"
proof -
  have a: "validate_isbn ''978-1-78179-283-4''"
    by (simp add: validate_isbn_def is_isbn13_def clean_def is_digit_def digit_value_def)
  have b: "\<not> validate_isbn ''978-1-78179-283-5''"
    by (simp add: validate_isbn_def is_isbn13_def is_isbn10_def clean_def is_digit_def
        digit_value_def)
  show ?thesis
    using a b validate_isbn_checksums [of "''978-1-78179-283-4''"]
      validate_isbn_checksums [of "''978-1-78179-283-5''"]
    by simp
qed

subsection \<open>Hyphens and spaces\<close>

lemma upper_char_plain:
  "is_digit c \<or> c = CHR ''X'' \<or> c = CHR ''-'' \<or> c = CHR '' '' \<Longrightarrow> upper_char c = c"
  by (auto simp add: upper_char_def is_digit_def Let_def)

lemma checksum_ok_chars:
  assumes "isbn13_checksum_ok c \<or> isbn10_checksum_ok c"
  shows "\<forall>x \<in> set c. is_digit x \<or> x = CHR ''X''"
proof
  fix x assume "x \<in> set c"
  then obtain i where i: "i < length c" "x = c ! i" by (auto simp: in_set_conv_nth)
  from assms show "is_digit x \<or> x = CHR ''X''"
  proof
    assume "isbn13_checksum_ok c"
    with i show ?thesis by (simp add: isbn13_checksum_ok_def)
  next
    assume a: "isbn10_checksum_ok c"
    show ?thesis
    proof (cases "i < 9")
      case True
      with a i show ?thesis by (simp add: isbn10_checksum_ok_def)
    next
      case False
      with a i have "i = 9" by (simp add: isbn10_checksum_ok_def)
      with a i show ?thesis by (auto simp add: isbn10_checksum_ok_def)
    qed
  qed
qed

lemma checksum_ok_upper:
  assumes "isbn13_checksum_ok (clean s) \<or> isbn10_checksum_ok (clean s)"
  shows "upper s = s"
proof -
  have "upper_char x = x" if "x \<in> set s" for x
  proof (cases "x = CHR ''-'' \<or> x = CHR '' ''")
    case True
    then show ?thesis using upper_char_plain by blast
  next
    case False
    with that have "x \<in> set (clean s)" by (simp add: clean_def)
    with checksum_ok_chars [OF assms] show ?thesis using upper_char_plain by blast
  qed
  then show ?thesis by (simp add: upper_def map_idI)
qed

lemma checksum_ok_pad:
  assumes "isbn13_checksum_ok (clean s) \<or> isbn10_checksum_ok (clean s)"
  shows "pad_isbn s = s"
proof -
  from assms have "10 \<le> length (clean s)"
    by (auto simp add: isbn13_checksum_ok_def isbn10_checksum_ok_def)
  then show ?thesis by (simp add: pad_isbn_def)
qed

text \<open>
  C10. Normalisation only puts zeros in front of the upper-cased string, so it removes
  no hyphen and no space. For a string whose cleaned form satisfies one of the two
  check-digit rules, validation passes, normalisation returns the string as it is, and
  the URL that is fetched is the base URL followed by that string, hyphens and spaces
  included.
\<close>

theorem hyphens_and_spaces_kept:
  "(\<exists>k. normalize_isbn s = replicate k CHR ''0'' @ upper s)
   \<and> (isbn13_checksum_ok (clean s) \<or> isbn10_checksum_ok (clean s)
      \<longrightarrow> validate_isbn s \<and> normalize_isbn s = s
          \<and> snd (check_bobcat_isbn browser (normalize_isbn s) fetched)
              = fetched @ [base_url @ s])"
proof (intro conjI impI)
  show "\<exists>k. normalize_isbn s = replicate k CHR ''0'' @ upper s"
    unfolding normalize_isbn_def by (rule pad_isbn_zeros)
next
  assume a: "isbn13_checksum_ok (clean s) \<or> isbn10_checksum_ok (clean s)"
  then show v: "validate_isbn s"
    by (simp add: validate_isbn_def is_isbn13_iff is_isbn10_iff)
  from a show n: "normalize_isbn s = s"
    by (simp add: normalize_isbn_def checksum_ok_upper checksum_ok_pad)
  from v show "snd (check_bobcat_isbn browser (normalize_isbn s) fetched)
      = fetched @ [base_url @ s]"
    unfolding n using check_bobcat_isbn_fetched [of s browser fetched] by simp
qed

theorem hyphens_and_spaces_kept_witness:
  "isbn10_checksum_ok (clean ''0-8044 2957-X'')
   \<and> validate_isbn ''0-8044 2957-X'' \<and> normalize_isbn ''0-8044 2957-X'' = ''0-8044 2957-X''
   \<and> snd (check_bobcat_isbn (static_browser ''Ancient Libraries'')
            (normalize_isbn ''0-8044 2957-X'') [])
       = [base_url @ ''0-8044 2957-X'']"
proof -
  have "is_isbn10 ''0-8044 2957-X''"
    by (simp add: is_isbn10_def clean_def is_digit_def digit_value_def)
  then have a: "isbn10_checksum_ok (clean ''0-8044 2957-X'')"
    by (simp only: is_isbn10_iff)
  show ?thesis
    using a hyphens_and_spaces_kept [of "''0-8044 2957-X''"
        "static_browser ''Ancient Libraries''" "[]"]
    by auto
qed

subsection \<open>The nine-digit scenario\<close>

lemma normalize_nine_digits: "pad_isbn (upper ''123456789'') = ''0123456789''"
  by code_simp

lemma validate_padded_nine_digits: "validate_isbn ''0123456789''"
  by (simp add: validate_isbn_def is_isbn10_def clean_def is_digit_def digit_value_def)

text \<open>
  C1 (as stated, it fails). The input \<open>123456789\<close> is padded to \<open>0123456789\<close>,
  and that string satisfies the ISBN-10 rule: its weighted sum is 165, fifteen times 11.
  With a browser that shows a page without the marker, the batch records
  \<open>(0123456789, True)\<close> after one fetch.
\<close>

theorem nine_digits_counterexample:
  "is_isbn10 ''0123456789''
   \<and> \<not> (fst (snd (run_batch (static_browser ''Ancient Libraries'') [''123456789'']))
           = [(''0123456789'', False)]
        \<and> snd (snd (run_batch (static_browser ''Ancient Libraries'') [''123456789''])) = [])"
  by code_simp

text \<open>
  C1 (amended). For the input \<open>123456789\<close> the batch fetches exactly one URL, the
  base URL followed by \<open>0123456789\<close>, and records \<open>0123456789\<close> with
  \<open>True\<close> when the page text does not contain the marker and \<open>False\<close> when it
  does; a browser exception ends the run with no pair recorded.
\<close>

theorem nine_digits_batch:
  "run_batch browser [''123456789'']
     = (case browser (base_url @ ''0123456789'') of
          None \<Rightarrow> (Inl BrowserError, [], [base_url @ ''0123456789''])
        | Some page \<Rightarrow>
            (Inr (), [(''0123456789'', \<not> str_in ''No records found'' page)],
             [base_url @ ''0123456789'']))"
  by (simp add: run_batch_def normalize_nine_digits check_bobcat_isbn_def
      validate_padded_nine_digits Let_def split: option.splits)

end
